theory Spec2Isabelle
  imports Main
begin

section \<open>Strings\<close>

text \<open>
  A JavaScript string is modelled by \<^typ>\<open>string\<close>, the list of its code units; the
  model covers the strings whose code units are below 256. The functions of
  \<^verbatim>\<open>String.prototype\<close> that \<^verbatim>\<open>NpmUtils.ts\<close> calls are written out here, each for the
  arguments the source gives it (a separator of one character, a literal pattern).
\<close>

text \<open>\<^verbatim>\<open>s.startsWith(pat)\<close>, used to define \<^verbatim>\<open>includes\<close> and \<^verbatim>\<open>replace\<close>.\<close>

fun str_startsWith :: "string \<Rightarrow> string \<Rightarrow> bool" where
  "str_startsWith s [] = True"
| "str_startsWith [] (p # ps) = False"
| "str_startsWith (c # cs) (p # ps) = (c = p \<and> str_startsWith cs ps)"

text \<open>\<^verbatim>\<open>s.includes(pat)\<close>: \<^verbatim>\<open>pat\<close> occurs in \<^verbatim>\<open>s\<close> at some position.\<close>

fun str_includes :: "string \<Rightarrow> string \<Rightarrow> bool" where
  "str_includes [] pat = (pat = [])"
| "str_includes (c # cs) pat = (str_startsWith (c # cs) pat \<or> str_includes cs pat)"

text \<open>
  \<^verbatim>\<open>s.split(sep)\<close> for a separator of one character: the fields between the
  separators, the empty ones included; the result is never the empty array
  (\<^verbatim>\<open>"".split("@")\<close> is \<^verbatim>\<open>[""]\<close>).
\<close>

fun str_split :: "char \<Rightarrow> string \<Rightarrow> string list" where
  "str_split sep [] = [[]]"
| "str_split sep (c # cs) =
     (if c = sep then [] # str_split sep cs
      else (case str_split sep cs of
              [] \<Rightarrow> [[c]]
            | f # fs \<Rightarrow> (c # f) # fs))"

text \<open>
  \<^verbatim>\<open>s.trim()\<close>: white space and line terminators are removed at both ends. Below
  256 these are the code units 9 to 13, 32 and 160.
\<close>

definition isWhiteSpace :: "char \<Rightarrow> bool" where
  "isWhiteSpace c = (of_char c \<in> {9, 10, 11, 12, 13, 32, 160 :: nat})"

definition str_trim :: "string \<Rightarrow> string" where
  "str_trim s = rev (dropWhile isWhiteSpace (rev (dropWhile isWhiteSpace s)))"

text \<open>
  \<^verbatim>\<open>s.replace(pat, rep)\<close> with a string pattern: the first occurrence of \<^verbatim>\<open>pat\<close> is
  replaced, the rest of \<^verbatim>\<open>s\<close> is kept.
\<close>

fun str_replace :: "string \<Rightarrow> string \<Rightarrow> string \<Rightarrow> string" where
  "str_replace [] pat rep = (if pat = [] then rep else [])"
| "str_replace (c # cs) pat rep =
     (if str_startsWith (c # cs) pat then rep @ drop (length pat) (c # cs)
      else c # str_replace cs pat rep)"

text \<open>
  The relational operators on strings compare code unit by code unit; a proper
  prefix is smaller.
\<close>

fun str_less :: "string \<Rightarrow> string \<Rightarrow> bool" where
  "str_less [] [] = False"
| "str_less [] (d # ds) = True"
| "str_less (c # cs) [] = False"
| "str_less (c # cs) (d # ds) =
     ((of_char c :: nat) < of_char d \<or> (c = d \<and> str_less cs ds))"

text \<open>\<^verbatim>\<open>xs[i]\<close> on an array: \<^verbatim>\<open>undefined\<close> (here \<^const>\<open>None\<close>) out of range.\<close>

fun index :: "'a list \<Rightarrow> nat \<Rightarrow> 'a option" where
  "index [] i = None"
| "index (x # xs) 0 = Some x"
| "index (x # xs) (Suc i) = index xs i"

text \<open>A value in a template literal: \<^verbatim>\<open>undefined\<close> prints as the word.\<close>

fun template :: "string option \<Rightarrow> string" where
  "template None = ''undefined''"
| "template (Some s) = s"

section \<open>Package records and errors\<close>

text \<open>
  Modelled from the spec: the class \<^verbatim>\<open>NpmPackage\<close> of \<^verbatim>\<open>NpmPackage.ts\<close>, which is not among
  the sources. Its fields are those of the spec's PackageRecord, under the names with
  which \<^verbatim>\<open>NpmUtils.ts\<close> reads and writes them; \<^verbatim>\<open>NpmUtils.ts\<close> constructs it with three,
  four or five arguments, in this order. A field holds the constructor argument as the
  call gives it: \<^const>\<open>None\<close> is an argument left out (or \<^verbatim>\<open>undefined\<close>), for which the
  class's own default applies.
\<close>

record NpmPackage =
  Name :: string
  Version :: "string option"
  Hash :: string
  IsTransitive :: "bool option"
  DependencyType :: "string option"

text \<open>
  What is thrown: a \<^verbatim>\<open>TypeError\<close> of the runtime, the \<^verbatim>\<open>Error\<close> of
  \<^verbatim>\<open>setAndReturnNpmPackage\<close> with its message, or the failure of a collaborator
  (\<^verbatim>\<open>exec\<close>, \<^verbatim>\<open>fs\<close>, \<^verbatim>\<open>JSON.parse\<close>) with the \<^verbatim>\<open>stderr\<close> property it carries, if any.
\<close>

datatype jsError = TypeError | Error string | Failure "string option"

fun stderrOf :: "jsError \<Rightarrow> string option" where
  "stderrOf TypeError = None"
| "stderrOf (Error m) = None"
| "stderrOf (Failure s) = s"

section \<open>The line parsers\<close>

definition isRegularVersion :: "string \<Rightarrow> bool" where
  "isRegularVersion version =
     (if str_includes version ''^'' then False
      else if str_includes version ''>='' then False
      else if str_includes version ''<='' then False
      else if str_includes version ''~'' then False
      else if str_includes version ''<'' then False
      else if str_includes version ''>'' then False
      else True)"

definition removeScopeSymbolFromName :: "string \<Rightarrow> string" where
  "removeScopeSymbolFromName name =
     (if take 1 name = ''@'' then ''%40'' @ drop 1 name else name)"

text \<open>
  \<^verbatim>\<open>splitParts[splitParts.length - 1]\<close> is \<^verbatim>\<open>undefined\<close> for the empty array, and
  \<^verbatim>\<open>substr\<close> on it is a \<^verbatim>\<open>TypeError\<close>. \<^verbatim>\<open>newSplit[0]\<close> of an empty array would be
  \<^verbatim>\<open>undefined\<close>, which differs from \<^verbatim>\<open>""\<close>, and \<^verbatim>\<open>newSplit[1]\<close> too.
\<close>

definition setAndReturnNpmPackage :: "string list \<Rightarrow> jsError + NpmPackage" where
  "setAndReturnNpmPackage splitParts =
     (if splitParts = [] then Inl TypeError
      else
        let newName = removeScopeSymbolFromName (last splitParts);
            newSplit = str_split CHR ''@'' newName;
            name = index newSplit 0;
            version = index newSplit 1
        in (case (name, version) of
              (Some n, Some v) \<Rightarrow>
                if n \<noteq> '''' then
                  Inr \<lparr>Name = str_replace n ''%40'' ''@'', Version = Some v, Hash = '''',
                       IsTransitive = None, DependencyType = None\<rparr>
                else Inl (Error (''No valid information, skipping dependency: '' @ newName))
            | _ \<Rightarrow> Inl (Error (''No valid information, skipping dependency: '' @ newName))))"

text \<open>
  \<^verbatim>\<open>_.uniqBy(list, key)\<close> of lodash: the first element of every key is kept, in the
  order of the list.
\<close>

fun uniqByFrom :: "'k list \<Rightarrow> ('a \<Rightarrow> 'k) \<Rightarrow> 'a list \<Rightarrow> 'a list" where
  "uniqByFrom seen key [] = []"
| "uniqByFrom seen key (x # xs) =
     (if key x \<in> set seen then uniqByFrom seen key xs
      else x # uniqByFrom (key x # seen) key xs)"

definition uniqBy :: "'a list \<Rightarrow> ('a \<Rightarrow> 'k) \<Rightarrow> 'a list" where
  "uniqBy list key = uniqByFrom [] key list"

text \<open>
  The comparator of \<^verbatim>\<open>sortDependencyList\<close>, and \<^verbatim>\<open>Array.prototype.sort\<close> with it: the
  sort is stable (ECMAScript 2019), so the result is the one of inserting each element,
  from the last to the first, before the first element that does not compare smaller.
\<close>

definition compareName :: "NpmPackage \<Rightarrow> NpmPackage \<Rightarrow> int" where
  "compareName a b =
     (if str_less (Name b) (Name a) then 1
      else if str_less (Name a) (Name b) then -1
      else 0)"

fun insertSorted :: "NpmPackage \<Rightarrow> NpmPackage list \<Rightarrow> NpmPackage list" where
  "insertSorted a [] = [a]"
| "insertSorted a (b # bs) =
     (if compareName b a < 0 then b # insertSorted a bs else a # b # bs)"

definition sortDependencyList :: "NpmPackage list \<Rightarrow> NpmPackage list" where
  "sortDependencyList list = foldr insertSorted list []"

text \<open>
  The body of the \<^verbatim>\<open>forEach\<close> of \<^verbatim>\<open>parseYarnList\<close> for a line after the first:
  \<^verbatim>\<open>dependencyList\<close> is passed in and returned. \<^verbatim>\<open>split\<close> never returns the empty
  array, so the last element exists.
\<close>

definition yarnLine :: "NpmPackage list \<Rightarrow> string \<Rightarrow> NpmPackage list" where
  "yarnLine dependencyList dep =
     (let splitParts = str_split CHR '' '' (str_trim dep)
      in if \<not> isRegularVersion (last splitParts) then dependencyList
         else (case setAndReturnNpmPackage splitParts of
                 Inr p \<Rightarrow> dependencyList @ [p]
               | Inl e \<Rightarrow> dependencyList))"

text \<open>
  \<^verbatim>\<open>toPurl\<close> is a method of \<^verbatim>\<open>NpmPackage\<close>; the parsers take it as the parameter
  \<open>toPurl\<close>. The line of index 0 is skipped.
\<close>

definition parseYarnList :: "(NpmPackage \<Rightarrow> string) \<Rightarrow> string \<Rightarrow> NpmPackage list" where
  "parseYarnList toPurl output =
     (let results = str_split (CHR 0x0A) output;
          dependencyList = foldl yarnLine [] (drop 1 results)
      in sortDependencyList (uniqBy dependencyList toPurl))"

definition npmLine :: "NpmPackage list \<Rightarrow> string \<Rightarrow> NpmPackage list" where
  "npmLine dependencyList dep =
     (let splitParts = str_split CHR '' '' (str_trim dep)
      in if last splitParts = ''deduped'' then dependencyList
         else (case setAndReturnNpmPackage splitParts of
                 Inr p \<Rightarrow> dependencyList @ [p]
               | Inl e \<Rightarrow> dependencyList))"

definition parseNpmList :: "(NpmPackage \<Rightarrow> string) \<Rightarrow> string \<Rightarrow> NpmPackage list" where
  "parseNpmList toPurl output =
     (let results = str_split (CHR 0x0A) output;
          dependencyList = foldl npmLine [] (drop 1 results)
      in sortDependencyList (uniqBy dependencyList toPurl))"

section \<open>Flattening the dependency tree and reconciling it with the manifest\<close>

text \<open>
  A JSON object is modelled by the list of its keys and values in the order of
  \<^verbatim>\<open>Object.keys\<close>; the keys of the list are pairwise distinct. A node of the tree of
  \<^verbatim>\<open>npm-shrinkwrap.json\<close> has the properties the source reads: \<^verbatim>\<open>version\<close>, \<^verbatim>\<open>dev\<close>
  (read for its truth value) and \<^verbatim>\<open>dependencies\<close>; \<^const>\<open>None\<close> is a property that is
  not there.
\<close>

datatype lockNode =
  LockNode (node_version: "string option") (node_dev: bool)
           (node_dependencies: "(string \<times> lockNode) list option")

type_synonym lockTree = "(string \<times> lockNode) list"

record shrinkwrapJson =
  shrinkwrap_dependencies :: "lockTree option"

record packageJson =
  package_dependencies :: "(string \<times> string) list option"
  package_devDependencies :: "(string \<times> string) list option"

definition extractInfo :: "lockTree \<Rightarrow> NpmPackage list" where
  "extractInfo array =
     map (\<lambda>(k, node).
            \<lparr>Name = k, Version = node_version node, Hash = '''',
             IsTransitive = Some True,
             DependencyType = Some (if node_dev node then ''devDependency'' else ''dependency'')\<rparr>)
         array"

text \<open>
  \<^verbatim>\<open>flattenDependencies\<close> takes \<^verbatim>\<open>any\<close> and reads the property \<^verbatim>\<open>dependencies\<close> of
  every element: an element is the package together with the value of that property.
  Both calls pass the array of \<^verbatim>\<open>extractInfo\<close>, whose elements are built by
  \<^verbatim>\<open>new NpmPackage(k, version, hash, isTransitive, dependencyType)\<close>: the nested map is
  no argument of the constructor, so such an element has no \<^verbatim>\<open>dependencies\<close>.
\<close>

definition asElement :: "NpmPackage \<Rightarrow> NpmPackage \<times> lockTree option" where
  "asElement p = (p, None)"

definition elementWeight :: "NpmPackage \<times> lockTree option \<Rightarrow> nat" where
  "elementWeight e = (case snd e of None \<Rightarrow> 1 | Some t \<Rightarrow> 2 + length t)"

function flattenDependencies :: "(NpmPackage \<times> lockTree option) list \<Rightarrow> NpmPackage list" where
  "flattenDependencies [] = []"
| "flattenDependencies ((p, None) # rest) = p # flattenDependencies rest"
| "flattenDependencies ((p, Some t) # rest) =
     (p # flattenDependencies (map asElement (extractInfo t))) @ flattenDependencies rest"
  by pat_completeness auto
termination
proof (relation "measure (\<lambda>es. sum_list (map elementWeight es))")
  show "wf (measure (\<lambda>es. sum_list (map elementWeight es)))"
    by simp
next
  fix p :: NpmPackage and rest :: "(NpmPackage \<times> lockTree option) list"
  show "(rest, (p, None) # rest) \<in> measure (\<lambda>es. sum_list (map elementWeight es))"
    by (simp add: elementWeight_def)
next
  fix p :: NpmPackage and t :: lockTree and rest :: "(NpmPackage \<times> lockTree option) list"
  have "sum_list (map elementWeight (map asElement (extractInfo t))) = length t"
    by (induction t) (simp_all add: extractInfo_def asElement_def elementWeight_def)
  then show "(map asElement (extractInfo t), (p, Some t) # rest)
               \<in> measure (\<lambda>es. sum_list (map elementWeight es))"
    by (simp add: elementWeight_def)
next
  fix p :: NpmPackage and t :: lockTree and rest :: "(NpmPackage \<times> lockTree option) list"
  show "(rest, (p, Some t) # rest) \<in> measure (\<lambda>es. sum_list (map elementWeight es))"
    by (simp add: elementWeight_def)
qed

text \<open>
  \<^verbatim>\<open>Object.keys(undefined)\<close> is a \<^verbatim>\<open>TypeError\<close>. The values of the manifest's maps are
  strings; the version is the second field of the split at \<^verbatim>\<open>:\<close>.
\<close>

definition extractPackageJsonInfo :: "(string \<times> string) list option \<Rightarrow> jsError + NpmPackage list" where
  "extractPackageJsonInfo array =
     (case array of
        None \<Rightarrow> Inl TypeError
      | Some m \<Rightarrow>
          Inr (map (\<lambda>(k, v).
                      \<lparr>Name = k, Version = index (str_split CHR '':'' v) 1, Hash = '''',
                       IsTransitive = Some False, DependencyType = None\<rparr>)
                   m))"

text \<open>
  The inner loop of the pass over the declared dependencies, for one
  \<^verbatim>\<open>elementTopLevel\<close>: every element is set transitive when it is reached, the first
  one of the name is set top-level and ends the loop.
\<close>

fun scanDependencies :: "NpmPackage list \<Rightarrow> NpmPackage \<Rightarrow> NpmPackage list" where
  "scanDependencies [] elementTopLevel = []"
| "scanDependencies (e # es) elementTopLevel =
     (if Name e = Name elementTopLevel
      then e\<lparr>IsTransitive := Some False, DependencyType := Some ''dependency''\<rparr> # es
      else e\<lparr>IsTransitive := Some True\<rparr> # scanDependencies es elementTopLevel)"

text \<open>The inner loop of the pass over the declared development dependencies.\<close>

fun scanDevDependencies :: "NpmPackage list \<Rightarrow> NpmPackage \<Rightarrow> NpmPackage list" where
  "scanDevDependencies [] element = []"
| "scanDevDependencies (e # es) element =
     (if Name e = Name element
      then e\<lparr>IsTransitive := Some False, DependencyType := Some ''devDependency''\<rparr> # es
      else e\<lparr>IsTransitive := Some True\<rparr> # scanDevDependencies es element)"

text \<open>
  \<^verbatim>\<open>newflatDependencies\<close> is computed and logged; the array returned is
  \<^verbatim>\<open>flatDependencies\<close>. The tests \<^verbatim>\<open>!== undefined\<close> are on arrays of \<^verbatim>\<open>map\<close> and hold.
\<close>

definition flattenAndUniqDependencies ::
  "shrinkwrapJson \<Rightarrow> packageJson \<Rightarrow> jsError + NpmPackage list" where
  "flattenAndUniqDependencies npmShrinkwrapContents npmPackageContents =
     (case shrinkwrap_dependencies npmShrinkwrapContents of
        None \<Rightarrow> Inr []
      | Some npmShrinkwrapContentsDependencies \<Rightarrow>
          let flatDependencies =
                flattenDependencies (map asElement (extractInfo npmShrinkwrapContentsDependencies));
              newflatDependencies = uniqBy flatDependencies Name
          in (case extractPackageJsonInfo (package_dependencies npmPackageContents) of
                Inl e \<Rightarrow> Inl e
              | Inr dependenciesTopLevel \<Rightarrow>
                  let flatDependencies1 = foldl scanDependencies flatDependencies dependenciesTopLevel
                  in (case extractPackageJsonInfo (package_devDependencies npmPackageContents) of
                        Inl e \<Rightarrow> Inl e
                      | Inr devDependencies \<Rightarrow>
                          Inr (foldl scanDevDependencies flatDependencies1 devDependencies))))"

section \<open>The entry point\<close>

text \<open>
  Modelled from the spec: the constants of \<^verbatim>\<open>NpmScanType.ts\<close>, which is not among the
  sources; they are the file names of the three formats.
\<close>

definition YARN_LOCK :: string where
  "YARN_LOCK = ''yarn.lock''"

definition NPM_SHRINKWRAP_JSON :: string where
  "NPM_SHRINKWRAP_JSON = ''npm-shrinkwrap.json''"

definition PACKAGE_LOCK_JSON :: string where
  "PACKAGE_LOCK_JSON = ''package-lock.json''"

definition NPM_SHRINKWRAP_COMMAND :: string where
  "NPM_SHRINKWRAP_COMMAND = ''npm shrinkwrap''"

definition YARN_LIST_COMMAND :: string where
  "YARN_LIST_COMMAND = ''yarn list''"

definition NPM_LIST_COMMAND :: string where
  "NPM_LIST_COMMAND = ''npm list''"

text \<open>
  What the call finds outside: the outcome of \<^verbatim>\<open>exec\<close> for a command (its \<^verbatim>\<open>stdout\<close>
  and \<^verbatim>\<open>stderr\<close>, or what it throws), and the outcome of reading and parsing
  \<^verbatim>\<open>npm-shrinkwrap.json\<close> and \<^verbatim>\<open>package.json\<close> in the workspace root.
\<close>

record world =
  exec :: "string \<Rightarrow> jsError + (string \<times> string)"
  readShrinkwrap :: "jsError + shrinkwrapJson"
  readPackageJson :: "jsError + packageJson"

text \<open>
  \<^verbatim>\<open>stderr.search(npmShrinkWrapFile)\<close> reads the file name as a regular expression, in
  which the dot stands for any code unit but a line terminator: the pattern matches at
  the start of \<open>s\<close>, or somewhere in \<open>s\<close>.
\<close>

fun matchesHere :: "char option list \<Rightarrow> string \<Rightarrow> bool" where
  "matchesHere [] s = True"
| "matchesHere (p # ps) [] = False"
| "matchesHere (None # ps) (c # cs) = (c \<noteq> CHR 0x0A \<and> c \<noteq> CHR 0x0D \<and> matchesHere ps cs)"
| "matchesHere (Some d # ps) (c # cs) = (c = d \<and> matchesHere ps cs)"

fun searchFinds :: "char option list \<Rightarrow> string \<Rightarrow> bool" where
  "searchFinds pat [] = matchesHere pat []"
| "searchFinds pat (c # cs) = (matchesHere pat (c # cs) \<or> searchFinds pat cs)"

definition regexOf :: "string \<Rightarrow> char option list" where
  "regexOf s = map (\<lambda>c. if c = CHR ''.'' then None else Some c) s"

definition catchAll :: "string \<Rightarrow> jsError \<Rightarrow> string + NpmPackage list" where
  "catchAll manifestType e =
     Inl (manifestType @ '' read failed, try running it manually to see what went wrong: ''
            @ template (stderrOf e))"

text \<open>
  The promise returned: \<^const>\<open>Inl\<close> is the rejection with its message, \<^const>\<open>Inr\<close>
  the array it resolves to. Whatever is thrown inside \<^verbatim>\<open>try\<close> ends in \<^verbatim>\<open>catch\<close>.
\<close>

definition getDependencyArray ::
  "world \<Rightarrow> (NpmPackage \<Rightarrow> string) \<Rightarrow> string \<Rightarrow> string + NpmPackage list" where
  "getDependencyArray w toPurl manifestType =
     (if manifestType = YARN_LOCK then
        (case exec w YARN_LIST_COMMAND of
           Inl e \<Rightarrow> catchAll manifestType e
         | Inr (stdout, stderr) \<Rightarrow>
             if stdout \<noteq> '''' \<and> stderr = '''' then Inr (parseYarnList toPurl stdout)
             else Inl (''Error running '' @ YARN_LIST_COMMAND @ '', err: '' @ stderr))
      else if manifestType = NPM_SHRINKWRAP_JSON then
        (case exec w NPM_SHRINKWRAP_COMMAND of
           Inl e \<Rightarrow> catchAll manifestType e
         | Inr (stdout, stderr) \<Rightarrow>
             let shrinkWrapSucceeded =
                   (if stdout \<noteq> '''' then True
                    else searchFinds (regexOf NPM_SHRINKWRAP_JSON) stderr)
             in if \<not> shrinkWrapSucceeded then
                  Inl (''Unable to run '' @ NPM_SHRINKWRAP_COMMAND)
                else
                  (case readShrinkwrap w of
                     Inl e \<Rightarrow> catchAll manifestType e
                   | Inr obj \<Rightarrow>
                       (case readPackageJson w of
                          Inl e \<Rightarrow> catchAll manifestType e
                        | Inr objTopLevel \<Rightarrow>
                            (case flattenAndUniqDependencies obj objTopLevel of
                               Inl e \<Rightarrow> catchAll manifestType e
                             | Inr flatDependencies \<Rightarrow> Inr flatDependencies))))
      else if manifestType = PACKAGE_LOCK_JSON then
        (case exec w NPM_LIST_COMMAND of
           Inl e \<Rightarrow> catchAll manifestType e
         | Inr (stdout, stderr) \<Rightarrow>
             if stdout \<noteq> '''' \<and> stderr = '''' then Inr (parseNpmList toPurl stdout)
             else Inl (''Error running '' @ NPM_LIST_COMMAND @ '', err: '' @ stderr))
      else
        Inl (''No valid command supplied, have you implemented it? Manifest type supplied: ''
               @ manifestType))"

section \<open>Concrete inputs\<close>

text \<open>
  Modelled from the spec: the method \<^verbatim>\<open>toPurl\<close> of \<^verbatim>\<open>NpmPackage\<close>, which is not among the
  sources; the spec says only that the canonical identifier is a deterministic string
  built from the name and the version. Here it is the name, \<^verbatim>\<open>@\<close> and the version. It
  stands for \<open>toPurl\<close> in the concrete runs below; the general theorems hold for every
  \<open>toPurl\<close>.
\<close>

definition nameAtVersion :: "NpmPackage \<Rightarrow> string" where
  "nameAtVersion p = Name p @ ''@'' @ template (Version p)"

text \<open>
  The tree \<^verbatim>\<open>{ "a": {version: "1.0.0", dependencies: {"b": {version: "2.0.0"}}} }\<close>.
\<close>

definition scenarioTree :: lockTree where
  "scenarioTree =
     [(''a'', LockNode (Some ''1.0.0'') False
                (Some [(''b'', LockNode (Some ''2.0.0'') False None)]))]"

text \<open>The tree \<^verbatim>\<open>{ "b": {version: "1.0.0"}, "a": {version: "1.0.0"} }\<close>.\<close>

definition unsortedTree :: lockTree where
  "unsortedTree =
     [(''b'', LockNode (Some ''1.0.0'') False None),
      (''a'', LockNode (Some ''1.0.0'') False None)]"

text \<open>
  The tree \<^verbatim>\<open>{ "b": {version: "1.0.0", dev: true}, "a": {version: "1.0.0"} }\<close>.
\<close>

definition markedTree :: lockTree where
  "markedTree =
     [(''b'', LockNode (Some ''1.0.0'') True None),
      (''a'', LockNode (Some ''1.0.0'') False None)]"

text \<open>
  An output of \<^verbatim>\<open>npm list\<close>: the header and six lines, one for each range operator.
\<close>

definition rangeListing :: string where
  "rangeListing =
     ''root'' @ [CHR 0x0A] @ ''a@^1'' @ [CHR 0x0A] @ ''b@~1'' @ [CHR 0x0A] @ ''c@>=1'' @ [CHR 0x0A]
       @ ''d@<=1'' @ [CHR 0x0A] @ ''e@>1'' @ [CHR 0x0A] @ ''f@<1''"

text \<open>
  A workspace in which \<^verbatim>\<open>npm shrinkwrap\<close> has written its file, holding the tree, and
  \<^verbatim>\<open>package.json\<close> holds the manifest.
\<close>

definition shrinkwrapWorld :: "lockTree \<Rightarrow> packageJson \<Rightarrow> world" where
  "shrinkwrapWorld tree manifest =
     \<lparr>exec = (\<lambda>command. Inr ('''', ''npm notice created a lockfile as npm-shrinkwrap.json'')),
      readShrinkwrap = Inr \<lparr>shrinkwrap_dependencies = Some tree\<rparr>,
      readPackageJson = Inr manifest\<rparr>"

text \<open>A workspace in which every command prints nothing and no file can be read.\<close>

definition silentWorld :: world where
  "silentWorld =
     \<lparr>exec = (\<lambda>command. Inr ('''', '''')),
      readShrinkwrap = Inl (Failure None),
      readPackageJson = Inl (Failure None)\<rparr>"

section \<open>Facts about the string functions\<close>

lemma str_startsWith_iff: "str_startsWith s pat \<longleftrightarrow> (\<exists>post. s = pat @ post)"
  by (induction s pat rule: str_startsWith.induct) auto

lemma str_includes_iff: "str_includes s pat \<longleftrightarrow> (\<exists>pre post. s = pre @ pat @ post)"
proof (induction s)
  case Nil
  then show ?case by auto
next
  case (Cons c cs)
  show ?case
  proof
    assume "str_includes (c # cs) pat"
    then consider "str_startsWith (c # cs) pat" | "str_includes cs pat" by auto
    then show "\<exists>pre post. c # cs = pre @ pat @ post"
    proof cases
      case 1
      then obtain post where "c # cs = pat @ post" by (auto simp: str_startsWith_iff)
      then have "c # cs = [] @ pat @ post" by simp
      then show ?thesis by blast
    next
      case 2
      then obtain pre post where "cs = pre @ pat @ post" using Cons.IH by auto
      then have "c # cs = (c # pre) @ pat @ post" by simp
      then show ?thesis by blast
    qed
  next
    assume "\<exists>pre post. c # cs = pre @ pat @ post"
    then obtain pre post where e: "c # cs = pre @ pat @ post" by auto
    show "str_includes (c # cs) pat"
    proof (cases pre)
      case Nil
      then have "str_startsWith (c # cs) pat" using e by (auto simp: str_startsWith_iff)
      then show ?thesis by simp
    next
      case (Cons d ds)
      then have "cs = ds @ pat @ post" using e by simp
      then have "str_includes cs pat" using Cons.IH by blast
      then show ?thesis by simp
    qed
  qed
qed

lemma str_split_nonempty: "str_split sep s \<noteq> []"
  by (induction s) (auto split: list.splits)

lemma str_split_no_sep: "sep \<notin> set s \<Longrightarrow> str_split sep s = [s]"
  by (induction s) auto

lemma str_split_first: "sep \<notin> set s \<Longrightarrow> str_split sep (s @ sep # t) = s # str_split sep t"
  by (induction s) auto

lemma split_at_has_second: "(\<exists>n v rest. str_split sep s = n # v # rest) \<longleftrightarrow> sep \<in> set s"
proof (induction s)
  case Nil
  then show ?case by simp
next
  case (Cons c cs)
  then show ?case
    by (cases "str_split sep cs") (auto simp: str_split_nonempty)
qed

lemma str_less_irrefl: "\<not> str_less s s"
  by (induction s) auto

lemma str_less_trans: "str_less a b \<Longrightarrow> str_less b c \<Longrightarrow> str_less a c"
proof (induction a b arbitrary: c rule: str_less.induct)
  case 1
  then show ?case by simp
next
  case (2 d ds)
  then show ?case by (cases c) simp_all
next
  case (3 x xs)
  then show ?case by simp
next
  case (4 x xs y ys)
  then show ?case by (cases c) auto
qed

lemma str_less_total: "str_less a b \<or> a = b \<or> str_less b a"
proof (induction a b rule: str_less.induct)
  case (4 c cs d ds)
  have "(of_char c :: nat) < of_char d \<or> c = d \<or> (of_char d :: nat) < of_char c"
    by (metis linorder_neqE_nat of_char_eq_iff)
  then show ?case using 4 by auto
qed simp_all

lemma str_less_asym: "str_less a b \<Longrightarrow> \<not> str_less b a"
  using str_less_irrefl str_less_trans by blast

lemma notless_trans:
  "\<not> str_less b a \<Longrightarrow> \<not> str_less c b \<Longrightarrow> \<not> str_less c a"
  by (metis str_less_total str_less_trans)

section \<open>The version classifier\<close>

text \<open>
  Claim C8. \<^verbatim>\<open>isRegularVersion\<close> is a function of the token alone, and it returns false
  exactly when one of \<^verbatim>\<open>^\<close>, \<^verbatim>\<open>~\<close>, \<^verbatim>\<open>>=\<close>, \<^verbatim>\<open><=\<close>, \<^verbatim>\<open>>\<close>, \<^verbatim>\<open><\<close> occurs in the token
  as a substring; every other token is accepted.
\<close>

theorem isRegularVersion_iff:
  "isRegularVersion version \<longleftrightarrow>
     \<not> (\<exists>pre post. version = pre @ ''^'' @ post \<or> version = pre @ ''~'' @ post
          \<or> version = pre @ ''>='' @ post \<or> version = pre @ ''<='' @ post
          \<or> version = pre @ ''>'' @ post \<or> version = pre @ ''<'' @ post)"
  unfolding isRegularVersion_def str_includes_iff by auto

theorem isRegularVersion_iff_witness:
  "isRegularVersion ''1.3.0'' \<and> \<not> isRegularVersion ''^4.0.0'' \<and> \<not> isRegularVersion ''1.0 <= 2''"
proof -
  have "\<not> isRegularVersion ''^4.0.0''"
    using isRegularVersion_iff [of "''^4.0.0''"] by (simp add: isRegularVersion_def)
  then show ?thesis by (simp add: isRegularVersion_def)
qed

section \<open>Record construction\<close>

lemma setAndReturnNpmPackage_Inr:
  "setAndReturnNpmPackage splitParts = Inr p \<longleftrightarrow>
     splitParts \<noteq> [] \<and>
     (\<exists>name version rest.
        str_split CHR ''@'' (removeScopeSymbolFromName (last splitParts)) = name # version # rest
        \<and> name \<noteq> ''''
        \<and> p = \<lparr>Name = str_replace name ''%40'' ''@'', Version = Some version, Hash = '''',
                 IsTransitive = None, DependencyType = None\<rparr>)"
proof (cases "splitParts = []")
  case True
  then show ?thesis by (simp add: setAndReturnNpmPackage_def)
next
  case False
  show ?thesis
  proof (cases "str_split CHR ''@'' (removeScopeSymbolFromName (last splitParts))")
    case Nil
    then show ?thesis using False by (simp add: setAndReturnNpmPackage_def)
  next
    case outer: (Cons n r)
    show ?thesis
    proof (cases r)
      case Nil
      then show ?thesis using False outer by (simp add: setAndReturnNpmPackage_def)
    next
      case (Cons v rest)
      then show ?thesis using False outer
        by (auto simp add: setAndReturnNpmPackage_def)
    qed
  qed
qed

lemma setAndReturnNpmPackage_token:
  "(\<exists>p. setAndReturnNpmPackage splitParts = Inr p) \<longleftrightarrow>
     splitParts \<noteq> [] \<and> CHR ''@'' \<in> set (tl (last splitParts))"
proof (cases "splitParts = []")
  case True
  then show ?thesis by (simp add: setAndReturnNpmPackage_def)
next
  case False
  define tok where "tok = last splitParts"
  have "(\<exists>p. setAndReturnNpmPackage splitParts = Inr p) \<longleftrightarrow>
        (\<exists>n v rest. str_split CHR ''@'' (removeScopeSymbolFromName tok) = n # v # rest \<and> n \<noteq> '''')"
    unfolding setAndReturnNpmPackage_Inr tok_def using False by auto
  also have "\<dots> \<longleftrightarrow> CHR ''@'' \<in> set (tl tok)"
  proof (cases tok)
    case Nil
    then show ?thesis by (simp add: removeScopeSymbolFromName_def)
  next
    case (Cons c cs)
    show ?thesis
    proof (cases "c = CHR ''@''")
      case True
      then have enc: "removeScopeSymbolFromName tok = ''%40'' @ cs"
        using Cons by (simp add: removeScopeSymbolFromName_def)
      show ?thesis unfolding enc using Cons
        by (cases "str_split CHR ''@'' cs")
           (auto simp: str_split_nonempty split_at_has_second[symmetric])
    next
      case False
      then have enc: "removeScopeSymbolFromName tok = c # cs"
        using Cons by (simp add: removeScopeSymbolFromName_def)
      show ?thesis unfolding enc using Cons False
        by (cases "str_split CHR ''@'' cs")
           (auto simp: str_split_nonempty split_at_has_second[symmetric])
    qed
  qed
  finally show ?thesis using False by (simp add: tok_def)
qed

text \<open>
  Claim C6, as stated, fails: the token \<^verbatim>\<open>foo@\<close> is not discarded, it yields a record
  whose version is the empty string.
\<close>

theorem setAndReturnNpmPackage_empty_version:
  "setAndReturnNpmPackage [''foo@''] =
     Inr \<lparr>Name = ''foo'', Version = Some '''', Hash = '''', IsTransitive = None,
          DependencyType = None\<rparr>"
  by (simp add: setAndReturnNpmPackage_def removeScopeSymbolFromName_def)

text \<open>
  Claim C6, amended. \<^verbatim>\<open>setAndReturnNpmPackage\<close> returns a record if and only if the split
  at \<^verbatim>\<open>@\<close> of the encoded last token has a first field that is not empty and a second
  field, which may be empty; the record has the decoded first field as its name and the
  second field as its version. In terms of the token: it succeeds if and only if an
  \<^verbatim>\<open>@\<close> occurs in the token after its first character.
\<close>

theorem setAndReturnNpmPackage_succeeds:
  "(setAndReturnNpmPackage splitParts = Inr p \<longleftrightarrow>
      splitParts \<noteq> [] \<and>
      (\<exists>name version rest.
         str_split CHR ''@'' (removeScopeSymbolFromName (last splitParts)) = name # version # rest
         \<and> name \<noteq> ''''
         \<and> p = \<lparr>Name = str_replace name ''%40'' ''@'', Version = Some version, Hash = '''',
                  IsTransitive = None, DependencyType = None\<rparr>))
   \<and> ((\<exists>q. setAndReturnNpmPackage splitParts = Inr q) \<longleftrightarrow>
        splitParts \<noteq> [] \<and> CHR ''@'' \<in> set (tl (last splitParts)))"
  using setAndReturnNpmPackage_Inr [of splitParts p] setAndReturnNpmPackage_token [of splitParts]
  by (rule conjI)

theorem setAndReturnNpmPackage_succeeds_witness:
  "(\<exists>q. setAndReturnNpmPackage [''left-pad@1.3.0''] = Inr q) \<and>
   \<not> (\<exists>q. setAndReturnNpmPackage [''x'', ''left-pad''] = Inr q)"
proof -
  have a: "(\<exists>q. setAndReturnNpmPackage [''left-pad@1.3.0''] = Inr q) \<longleftrightarrow>
             [''left-pad@1.3.0''] \<noteq> [] \<and> CHR ''@'' \<in> set (tl (last [''left-pad@1.3.0'']))"
    using setAndReturnNpmPackage_succeeds [of "[''left-pad@1.3.0'']"] by (rule conjunct2)
  have b: "(\<exists>q. setAndReturnNpmPackage [''x'', ''left-pad''] = Inr q) \<longleftrightarrow>
             [''x'', ''left-pad''] \<noteq> [] \<and> CHR ''@'' \<in> set (tl (last [''x'', ''left-pad'']))"
    using setAndReturnNpmPackage_succeeds [of "[''x'', ''left-pad'']"] by (rule conjunct2)
  show ?thesis unfolding a b by simp
qed

text \<open>
  Claim C7. A token \<^verbatim>\<open>@scope/pkg@version\<close>, in which neither \<^verbatim>\<open>scope/pkg\<close> nor the version
  holds a further \<^verbatim>\<open>@\<close>, is encoded, split and decoded into the record with the name
  \<^verbatim>\<open>@scope/pkg\<close> and that version, whatever stands before it on the line.
\<close>

theorem scoped_token_roundtrip:
  assumes "CHR ''@'' \<notin> set scopePkg" and "CHR ''@'' \<notin> set version"
  shows "setAndReturnNpmPackage (before @ [''@'' @ scopePkg @ ''@'' @ version]) =
           Inr \<lparr>Name = ''@'' @ scopePkg, Version = Some version, Hash = '''',
                IsTransitive = None, DependencyType = None\<rparr>"
proof -
  have enc: "removeScopeSymbolFromName (''@'' @ scopePkg @ ''@'' @ version)
               = (''%40'' @ scopePkg) @ CHR ''@'' # version"
    by (simp add: removeScopeSymbolFromName_def)
  have "CHR ''@'' \<notin> set (''%40'' @ scopePkg)" using assms(1) by simp
  then have "str_split CHR ''@'' ((''%40'' @ scopePkg) @ CHR ''@'' # version)
               = (''%40'' @ scopePkg) # str_split CHR ''@'' version"
    by (rule str_split_first)
  moreover have "str_split CHR ''@'' version = [version]"
    using assms(2) by (rule str_split_no_sep)
  ultimately have sp:
    "str_split CHR ''@'' (removeScopeSymbolFromName (''@'' @ scopePkg @ ''@'' @ version))
       = [''%40'' @ scopePkg, version]"
    by (simp only: enc)
  show ?thesis
    unfolding setAndReturnNpmPackage_def by (simp add: sp del: append.simps) simp
qed

theorem scoped_token_roundtrip_witness:
  "CHR ''@'' \<notin> set ''scope/pkg'' \<and> CHR ''@'' \<notin> set ''1.0.0'' \<and>
   setAndReturnNpmPackage [''@scope/pkg@1.0.0''] =
     Inr \<lparr>Name = ''@scope/pkg'', Version = Some ''1.0.0'', Hash = '''',
          IsTransitive = None, DependencyType = None\<rparr>"
proof -
  have a: "CHR ''@'' \<notin> set ''scope/pkg''" by simp
  have b: "CHR ''@'' \<notin> set ''1.0.0''" by simp
  show ?thesis using a b scoped_token_roundtrip [OF a b, of "[]"] by simp
qed

section \<open>Deduplication and sorting\<close>

lemma set_uniqByFrom: "set (uniqByFrom seen key xs) \<subseteq> set xs"
  by (induction xs arbitrary: seen) auto

lemma keys_uniqByFrom: "key ` set (uniqByFrom seen key xs) \<inter> set seen = {}"
proof (induction xs arbitrary: seen)
  case Nil
  then show ?case by simp
next
  case (Cons x xs)
  show ?case
  proof (cases "key x \<in> set seen")
    case True
    then show ?thesis using Cons.IH [of seen] by simp
  next
    case False
    then show ?thesis using Cons.IH [of "key x # seen"] by auto
  qed
qed

lemma distinct_uniqByFrom: "distinct (map key (uniqByFrom seen key xs))"
proof (induction xs arbitrary: seen)
  case Nil
  then show ?case by simp
next
  case (Cons x xs)
  show ?case
  proof (cases "key x \<in> set seen")
    case True
    then show ?thesis using Cons.IH by simp
  next
    case False
    have "key x \<notin> key ` set (uniqByFrom (key x # seen) key xs)"
      using keys_uniqByFrom [of key "key x # seen" xs] by auto
    then show ?thesis using False Cons.IH by simp
  qed
qed

lemma image_uniqByFrom:
  "key ` set (uniqByFrom seen key xs) \<union> set seen = key ` set xs \<union> set seen"
proof (induction xs arbitrary: seen)
  case Nil
  then show ?case by simp
next
  case (Cons x xs)
  show ?case
  proof (cases "key x \<in> set seen")
    case True
    then show ?thesis using Cons.IH [of seen] by auto
  next
    case False
    then show ?thesis using Cons.IH [of "key x # seen"] by auto
  qed
qed

lemma image_uniqBy: "key ` set (uniqBy xs key) = key ` set xs"
  using image_uniqByFrom [of key "[]" xs] by (simp add: uniqBy_def)

lemma compareName_neg: "compareName b a < 0 \<longleftrightarrow> str_less (Name b) (Name a)"
  by (auto simp: compareName_def dest: str_less_asym)

lemma set_insertSorted: "set (insertSorted a bs) = insert a (set bs)"
  by (induction bs) auto

lemma set_sortDependencyList: "set (sortDependencyList xs) = set xs"
  by (induction xs) (simp_all add: sortDependencyList_def set_insertSorted)

lemma sorted_insertSorted:
  "sorted_wrt (\<lambda>a b. \<not> str_less (Name b) (Name a)) bs \<Longrightarrow>
   sorted_wrt (\<lambda>a b. \<not> str_less (Name b) (Name a)) (insertSorted a bs)"
proof (induction bs)
  case Nil
  then show ?case by simp
next
  case (Cons b bs)
  show ?case
  proof (cases "str_less (Name b) (Name a)")
    case True
    then have "\<not> str_less (Name a) (Name b)" by (rule str_less_asym)
    then show ?thesis using True Cons
      by (auto simp: compareName_neg set_insertSorted)
  next
    case False
    have "\<not> str_less (Name x) (Name a)" if "x \<in> set bs" for x
    proof -
      have "\<not> str_less (Name x) (Name b)" using Cons.prems that by simp
      with False show ?thesis by (rule notless_trans)
    qed
    then have "\<forall>x\<in>set bs. \<not> str_less (Name x) (Name a)" by simp
    then show ?thesis using False Cons.prems by (simp add: compareName_neg)
  qed
qed

lemma sorted_sortDependencyList:
  "sorted_wrt (\<lambda>a b. \<not> str_less (Name b) (Name a)) (sortDependencyList xs)"
proof (induction xs)
  case Nil
  then show ?case by (simp add: sortDependencyList_def)
next
  case (Cons x xs)
  then show ?case using sorted_insertSorted [of "sortDependencyList xs" x]
    by (simp add: sortDependencyList_def)
qed

lemma distinct_insertSorted:
  "distinct (map key (insertSorted a bs)) \<longleftrightarrow> key a \<notin> key ` set bs \<and> distinct (map key bs)"
  by (induction bs) (auto simp: set_insertSorted)

lemma distinct_sortDependencyList:
  "distinct (map key (sortDependencyList xs)) \<longleftrightarrow> distinct (map key xs)"
proof (induction xs)
  case Nil
  then show ?case by (simp add: sortDependencyList_def)
next
  case (Cons x xs)
  have "sortDependencyList (x # xs) = insertSorted x (sortDependencyList xs)"
    by (simp add: sortDependencyList_def)
  then show ?case using Cons by (simp add: distinct_insertSorted set_sortDependencyList)
qed

lemma filter_insertSorted:
  "filter (\<lambda>p. Name p = n) (insertSorted a bs) = filter (\<lambda>p. Name p = n) (a # bs)"
proof (induction bs)
  case Nil
  then show ?case by simp
next
  case (Cons b bs)
  show ?case
  proof (cases "compareName b a < 0")
    case True
    then have "Name b \<noteq> Name a"
      by (auto simp: compareName_neg str_less_irrefl)
    then show ?thesis using True Cons by auto
  next
    case False
    then show ?thesis by simp
  qed
qed

lemma filter_sortDependencyList:
  "filter (\<lambda>p. Name p = n) (sortDependencyList xs) = filter (\<lambda>p. Name p = n) xs"
proof (induction xs)
  case Nil
  then show ?case by (simp add: sortDependencyList_def)
next
  case (Cons x xs)
  have "sortDependencyList (x # xs) = insertSorted x (sortDependencyList xs)"
    by (simp add: sortDependencyList_def)
  then show ?case using Cons by (simp add: filter_insertSorted)
qed

text \<open>
  The two line parsers end with the deduplication and the sort: what \<^verbatim>\<open>parseYarnList\<close>
  returns is ordered by name, its records of one name stand in the order the
  deduplication left them in, and its canonical identifiers are pairwise distinct.
\<close>

theorem parseYarnList_sorted_distinct:
  "sorted_wrt (\<lambda>a b. \<not> str_less (Name b) (Name a)) (parseYarnList toPurl output)
   \<and> distinct (map toPurl (parseYarnList toPurl output))
   \<and> filter (\<lambda>p. Name p = n) (parseYarnList toPurl output) =
       filter (\<lambda>p. Name p = n)
         (uniqBy (foldl yarnLine [] (drop 1 (str_split (CHR 0x0A) output))) toPurl)"
  by (simp add: parseYarnList_def Let_def sorted_sortDependencyList distinct_sortDependencyList
        uniqBy_def distinct_uniqByFrom filter_sortDependencyList)

text \<open>The same holds of what \<^verbatim>\<open>parseNpmList\<close> returns.\<close>

theorem parseNpmList_sorted_distinct:
  "sorted_wrt (\<lambda>a b. \<not> str_less (Name b) (Name a)) (parseNpmList toPurl output)
   \<and> distinct (map toPurl (parseNpmList toPurl output))
   \<and> filter (\<lambda>p. Name p = n) (parseNpmList toPurl output) =
       filter (\<lambda>p. Name p = n)
         (uniqBy (foldl npmLine [] (drop 1 (str_split (CHR 0x0A) output))) toPurl)"
  by (simp add: parseNpmList_def Let_def sorted_sortDependencyList distinct_sortDependencyList
        uniqBy_def distinct_uniqByFrom filter_sortDependencyList)

text \<open>
  Claim C1 holds on the two line parsers and fails on the third path. For the tree
  \<^verbatim>\<open>{ "b": {version: "1.0.0"}, "a": {version: "1.0.0"} }\<close> and a manifest with two empty
  maps, \<^verbatim>\<open>getDependencyArray\<close> with \<^verbatim>\<open>npm-shrinkwrap.json\<close> resolves to \<^verbatim>\<open>b\<close> before \<^verbatim>\<open>a\<close>,
  though \<^verbatim>\<open>"a" < "b"\<close>: \<^verbatim>\<open>flattenAndUniqDependencies\<close> returns \<^verbatim>\<open>flatDependencies\<close> as it
  is, neither deduplicated nor sorted.
\<close>

theorem shrinkwrap_path_unsorted:
  "getDependencyArray
     (shrinkwrapWorld unsortedTree \<lparr>package_dependencies = Some [], package_devDependencies = Some []\<rparr>)
     nameAtVersion NPM_SHRINKWRAP_JSON =
   Inr [\<lparr>Name = ''b'', Version = Some ''1.0.0'', Hash = '''', IsTransitive = Some True,
          DependencyType = Some ''dependency''\<rparr>,
        \<lparr>Name = ''a'', Version = Some ''1.0.0'', Hash = '''', IsTransitive = Some True,
          DependencyType = Some ''dependency''\<rparr>]
   \<and> str_less ''a'' ''b''"
  by code_simp

section \<open>The flat-listing parser\<close>

lemma set_foldl_npmLine:
  "set (foldl npmLine acc deps) =
     set acc \<union> {p. \<exists>dep \<in> set deps.
                    last (str_split CHR '' '' (str_trim dep)) \<noteq> ''deduped'' \<and>
                    setAndReturnNpmPackage (str_split CHR '' '' (str_trim dep)) = Inr p}"
proof (induction deps arbitrary: acc)
  case Nil
  then show ?case by simp
next
  case (Cons dep deps)
  have step: "set (npmLine acc dep) =
      set acc \<union> {p. last (str_split CHR '' '' (str_trim dep)) \<noteq> ''deduped'' \<and>
                    setAndReturnNpmPackage (str_split CHR '' '' (str_trim dep)) = Inr p}"
    by (auto simp: npmLine_def Let_def split: sum.splits)
  show ?case
    unfolding foldl_Cons Cons.IH step by auto
qed

text \<open>
  Claim C2, as stated, fails: \<^verbatim>\<open>parseNpmList\<close> never calls \<^verbatim>\<open>isRegularVersion\<close>. Of six
  lines after the header, one for each of \<^verbatim>\<open>^\<close>, \<^verbatim>\<open>~\<close>, \<^verbatim>\<open>>=\<close>, \<^verbatim>\<open><=\<close>, \<^verbatim>\<open>>\<close>, \<^verbatim>\<open><\<close>, every
  one yields a record, whose version holds the operator.
\<close>

theorem parseNpmList_keeps_range:
  "parseNpmList nameAtVersion rangeListing =
     [\<lparr>Name = ''a'', Version = Some ''^1'', Hash = '''', IsTransitive = None, DependencyType = None\<rparr>,
      \<lparr>Name = ''b'', Version = Some ''~1'', Hash = '''', IsTransitive = None, DependencyType = None\<rparr>,
      \<lparr>Name = ''c'', Version = Some ''>=1'', Hash = '''', IsTransitive = None, DependencyType = None\<rparr>,
      \<lparr>Name = ''d'', Version = Some ''<=1'', Hash = '''', IsTransitive = None, DependencyType = None\<rparr>,
      \<lparr>Name = ''e'', Version = Some ''>1'', Hash = '''', IsTransitive = None, DependencyType = None\<rparr>,
      \<lparr>Name = ''f'', Version = Some ''<1'', Hash = '''', IsTransitive = None, DependencyType = None\<rparr>]
   \<and> \<not> isRegularVersion ''^1'' \<and> \<not> isRegularVersion ''~1'' \<and> \<not> isRegularVersion ''>=1''
   \<and> \<not> isRegularVersion ''<=1'' \<and> \<not> isRegularVersion ''>1'' \<and> \<not> isRegularVersion ''<1''"
  by code_simp

text \<open>
  Claim C2, amended. Every record that \<^verbatim>\<open>parseNpmList\<close> returns is the record that
  \<^verbatim>\<open>setAndReturnNpmPackage\<close> builds from the fields of a line after the first whose
  last field is not \<^verbatim>\<open>deduped\<close>. And no version-range filter stands between the line
  and the result: for every such line from which \<^verbatim>\<open>setAndReturnNpmPackage\<close> builds a
  record, whatever its version holds, a record of the same canonical identifier is
  returned.
\<close>

theorem parseNpmList_records:
  "(p \<in> set (parseNpmList toPurl output) \<longrightarrow>
      (\<exists>dep \<in> set (drop 1 (str_split (CHR 0x0A) output)).
         last (str_split CHR '' '' (str_trim dep)) \<noteq> ''deduped'' \<and>
         setAndReturnNpmPackage (str_split CHR '' '' (str_trim dep)) = Inr p))
   \<and> (\<forall>dep \<in> set (drop 1 (str_split (CHR 0x0A) output)). \<forall>q.
         last (str_split CHR '' '' (str_trim dep)) \<noteq> ''deduped'' \<and>
         setAndReturnNpmPackage (str_split CHR '' '' (str_trim dep)) = Inr q \<longrightarrow>
         (\<exists>r \<in> set (parseNpmList toPurl output). toPurl r = toPurl q))"
proof (intro conjI impI ballI allI)
  assume "p \<in> set (parseNpmList toPurl output)"
  then have "p \<in> set (foldl npmLine [] (drop 1 (str_split (CHR 0x0A) output)))"
    using set_uniqByFrom [of "[]" toPurl]
    by (auto simp: parseNpmList_def Let_def set_sortDependencyList uniqBy_def)
  then show "\<exists>dep \<in> set (drop 1 (str_split (CHR 0x0A) output)).
           last (str_split CHR '' '' (str_trim dep)) \<noteq> ''deduped'' \<and>
           setAndReturnNpmPackage (str_split CHR '' '' (str_trim dep)) = Inr p"
    unfolding set_foldl_npmLine by simp
next
  fix dep q
  assume d: "dep \<in> set (drop 1 (str_split (CHR 0x0A) output))"
    and c: "last (str_split CHR '' '' (str_trim dep)) \<noteq> ''deduped'' \<and>
         setAndReturnNpmPackage (str_split CHR '' '' (str_trim dep)) = Inr q"
  let ?raw = "foldl npmLine [] (drop 1 (str_split (CHR 0x0A) output))"
  have "q \<in> set ?raw"
    unfolding set_foldl_npmLine using d c by auto
  then have "toPurl q \<in> toPurl ` set (uniqBy ?raw toPurl)"
    by (simp add: image_uniqBy)
  then have "toPurl q \<in> toPurl ` set (parseNpmList toPurl output)"
    by (simp add: parseNpmList_def Let_def set_sortDependencyList)
  then show "\<exists>r \<in> set (parseNpmList toPurl output). toPurl r = toPurl q"
    by auto
qed

theorem parseNpmList_records_witness:
  "(\<exists>r \<in> set (parseNpmList nameAtVersion rangeListing). nameAtVersion r = ''b@~1'')
   \<and> (\<exists>r \<in> set (parseNpmList nameAtVersion rangeListing). nameAtVersion r = ''d@<=1'')
   \<and> (\<exists>r \<in> set (parseNpmList nameAtVersion rangeListing). nameAtVersion r = ''e@>1'')"
proof -
  let ?b = "\<lparr>Name = ''b'', Version = Some ''~1'', Hash = '''', IsTransitive = None, DependencyType = None\<rparr>"
  let ?d = "\<lparr>Name = ''d'', Version = Some ''<=1'', Hash = '''', IsTransitive = None, DependencyType = None\<rparr>"
  let ?e = "\<lparr>Name = ''e'', Version = Some ''>1'', Hash = '''', IsTransitive = None, DependencyType = None\<rparr>"
  have conv: "\<forall>dep \<in> set (drop 1 (str_split (CHR 0x0A) rangeListing)). \<forall>q.
         last (str_split CHR '' '' (str_trim dep)) \<noteq> ''deduped'' \<and>
         setAndReturnNpmPackage (str_split CHR '' '' (str_trim dep)) = Inr q \<longrightarrow>
         (\<exists>r \<in> set (parseNpmList nameAtVersion rangeListing). nameAtVersion r = nameAtVersion q)"
    using parseNpmList_records [of ?b nameAtVersion rangeListing] by (rule conjunct2)
  have lb: "''b@~1'' \<in> set (drop 1 (str_split (CHR 0x0A) rangeListing))"
    and ld: "''d@<=1'' \<in> set (drop 1 (str_split (CHR 0x0A) rangeListing))"
    and le: "''e@>1'' \<in> set (drop 1 (str_split (CHR 0x0A) rangeListing))"
    by (simp_all add: rangeListing_def)
  have cb: "last (str_split CHR '' '' (str_trim ''b@~1'')) \<noteq> ''deduped'' \<and>
         setAndReturnNpmPackage (str_split CHR '' '' (str_trim ''b@~1'')) = Inr ?b"
    by code_simp
  have cd: "last (str_split CHR '' '' (str_trim ''d@<=1'')) \<noteq> ''deduped'' \<and>
         setAndReturnNpmPackage (str_split CHR '' '' (str_trim ''d@<=1'')) = Inr ?d"
    by code_simp
  have ce: "last (str_split CHR '' '' (str_trim ''e@>1'')) \<noteq> ''deduped'' \<and>
         setAndReturnNpmPackage (str_split CHR '' '' (str_trim ''e@>1'')) = Inr ?e"
    by code_simp
  have "\<exists>r \<in> set (parseNpmList nameAtVersion rangeListing). nameAtVersion r = nameAtVersion ?b"
    using conv lb cb by blast
  moreover have "\<exists>r \<in> set (parseNpmList nameAtVersion rangeListing). nameAtVersion r = nameAtVersion ?d"
    using conv ld cd by blast
  moreover have "\<exists>r \<in> set (parseNpmList nameAtVersion rangeListing). nameAtVersion r = nameAtVersion ?e"
    using conv le ce by blast
  ultimately show ?thesis by (simp add: nameAtVersion_def)
qed

section \<open>Flattening\<close>

text \<open>
  The elements that \<^verbatim>\<open>extractInfo\<close> builds carry no nested map, so the recursive branch
  of \<^verbatim>\<open>flattenDependencies\<close> is never taken on them: the flattened sequence is the
  first level of the tree.
\<close>

lemma flattenDependencies_packages: "flattenDependencies (map asElement ps) = ps"
  by (induction ps) (simp_all add: asElement_def)

text \<open>
  Claim C3 describes what the code is written to do and does not do. With the manifest
  \<^verbatim>\<open>{dependencies: {"a": "^1.0.0"}}\<close> the call throws a \<^verbatim>\<open>TypeError\<close>, since
  \<^verbatim>\<open>Object.keys\<close> is applied to the missing \<^verbatim>\<open>devDependencies\<close>; with an empty
  \<^verbatim>\<open>devDependencies\<close> map added it returns the record of \<^verbatim>\<open>a\<close> alone, top-level and of
  type \<^verbatim>\<open>dependency\<close>: \<^verbatim>\<open>b\<close> is never reached.
\<close>

theorem scenarioC_result:
  "flattenAndUniqDependencies \<lparr>shrinkwrap_dependencies = Some scenarioTree\<rparr>
     \<lparr>package_dependencies = Some [(''a'', ''^1.0.0'')], package_devDependencies = None\<rparr>
     = Inl TypeError
   \<and> flattenAndUniqDependencies \<lparr>shrinkwrap_dependencies = Some scenarioTree\<rparr>
     \<lparr>package_dependencies = Some [(''a'', ''^1.0.0'')], package_devDependencies = Some []\<rparr>
     = Inr [\<lparr>Name = ''a'', Version = Some ''1.0.0'', Hash = '''', IsTransitive = Some False,
             DependencyType = Some ''dependency''\<rparr>]"
  by code_simp

text \<open>
  Claim C9. When the root object of the tree has no \<^verbatim>\<open>dependencies\<close>,
  \<^verbatim>\<open>flattenAndUniqDependencies\<close> returns the empty array, whatever the manifest holds,
  and throws nothing.
\<close>

theorem missing_tree_is_empty:
  "flattenAndUniqDependencies \<lparr>shrinkwrap_dependencies = None\<rparr> npmPackageContents = Inr []"
  by (simp add: flattenAndUniqDependencies_def)

theorem missing_tree_is_empty_witness:
  "flattenAndUniqDependencies \<lparr>shrinkwrap_dependencies = None\<rparr>
     \<lparr>package_dependencies = None, package_devDependencies = None\<rparr> = Inr []"
  using missing_tree_is_empty [of "\<lparr>package_dependencies = None, package_devDependencies = None\<rparr>"]
  by simp

section \<open>Reconciliation\<close>

lemma map_Name_scanDependencies: "map Name (scanDependencies flat e) = map Name flat"
  by (induction flat) auto

lemma map_Name_scanDevDependencies: "map Name (scanDevDependencies flat e) = map Name flat"
  by (induction flat) auto

lemma map_Name_foldl_scanDependencies: "map Name (foldl scanDependencies flat es) = map Name flat"
  by (induction es arbitrary: flat) (simp_all add: map_Name_scanDependencies)

lemma map_Name_foldl_scanDevDependencies:
  "map Name (foldl scanDevDependencies flat es) = map Name flat"
  by (induction es arbitrary: flat) (simp_all add: map_Name_scanDevDependencies)

lemma length_scanDevDependencies: "length (scanDevDependencies flat e) = length flat"
  by (induction flat) auto

lemma length_foldl_scanDevDependencies: "length (foldl scanDevDependencies flat es) = length flat"
  by (induction es arbitrary: flat) (simp_all add: length_scanDevDependencies)

lemma nth_map_Name:
  "map Name xs = map Name ys \<Longrightarrow> i < length ys \<Longrightarrow> Name (xs ! i) = Name (ys ! i)"
  by (metis length_map nth_map)

lemma scanDevDependencies_before_match:
  "i < length flat \<Longrightarrow> \<forall>j\<le>i. Name (flat ! j) \<noteq> Name element \<Longrightarrow>
     IsTransitive (scanDevDependencies flat element ! i) = Some True"
proof (induction flat arbitrary: i)
  case Nil
  then show ?case by simp
next
  case (Cons e es)
  from Cons.prems(2) have ne: "Name e \<noteq> Name element" by auto
  show ?case
  proof (cases i)
    case 0
    then show ?thesis using ne by simp
  next
    case (Suc k)
    have "\<forall>j\<le>k. Name (es ! j) \<noteq> Name element"
      using Cons.prems(2) Suc by auto
    moreover have "k < length es" using Cons.prems(1) Suc by simp
    ultimately show ?thesis using Cons.IH Suc ne by simp
  qed
qed

lemma scanDevDependencies_first_match:
  "i < length flat \<Longrightarrow> Name (flat ! i) = Name element \<Longrightarrow>
   \<forall>j<i. Name (flat ! j) \<noteq> Name element \<Longrightarrow>
     DependencyType (scanDevDependencies flat element ! i) = Some ''devDependency'' \<and>
     IsTransitive (scanDevDependencies flat element ! i) = Some False"
proof (induction flat arbitrary: i)
  case Nil
  then show ?case by simp
next
  case (Cons e es)
  show ?case
  proof (cases i)
    case 0
    then show ?thesis using Cons.prems by simp
  next
    case (Suc k)
    have ne: "Name e \<noteq> Name element" using Cons.prems(3) Suc by auto
    have "\<forall>j<k. Name (es ! j) \<noteq> Name element"
      using Cons.prems(3) Suc by auto
    moreover have "k < length es" "Name (es ! k) = Name element" using Cons.prems Suc by simp_all
    ultimately show ?thesis using Cons.IH Suc ne by simp
  qed
qed

lemma scanDevDependencies_keeps_dev:
  "i < length flat \<Longrightarrow> DependencyType (flat ! i) = Some ''devDependency'' \<Longrightarrow>
     DependencyType (scanDevDependencies flat element ! i) = Some ''devDependency''"
proof (induction flat arbitrary: i)
  case Nil
  then show ?case by simp
next
  case (Cons e es)
  then show ?case by (cases i) auto
qed

lemma foldl_scanDevDependencies_keeps_dev:
  "i < length flat \<Longrightarrow> DependencyType (flat ! i) = Some ''devDependency'' \<Longrightarrow>
     DependencyType (foldl scanDevDependencies flat es ! i) = Some ''devDependency''"
proof (induction es arbitrary: flat)
  case Nil
  then show ?case by simp
next
  case (Cons e es)
  have "i < length (scanDevDependencies flat e)"
    using Cons.prems(1) by (simp add: length_scanDevDependencies)
  moreover have "DependencyType (scanDevDependencies flat e ! i) = Some ''devDependency''"
    using Cons.prems by (rule scanDevDependencies_keeps_dev)
  ultimately show ?case using Cons.IH by simp
qed

lemma foldl_scanDevDependencies_declared:
  assumes "element \<in> set devDependencies"
    and "i < length flat" and "Name (flat ! i) = Name element"
    and "\<forall>j<i. Name (flat ! j) \<noteq> Name element"
  shows "DependencyType (foldl scanDevDependencies flat devDependencies ! i) = Some ''devDependency''"
proof -
  from assms(1) obtain xs ys where sp: "devDependencies = xs @ element # ys"
    by (auto simp: in_set_conv_decomp)
  define mid where "mid = foldl scanDevDependencies flat xs"
  have names: "map Name mid = map Name flat"
    by (simp add: mid_def map_Name_foldl_scanDevDependencies)
  have len: "length mid = length flat"
    by (simp add: mid_def length_foldl_scanDevDependencies)
  have nm: "\<And>j. j < length flat \<Longrightarrow> Name (mid ! j) = Name (flat ! j)"
    using names by (rule nth_map_Name)
  have a: "i < length mid" using assms(2) len by simp
  have b: "Name (mid ! i) = Name element" using nm assms(2,3) by simp
  have c: "\<forall>j<i. Name (mid ! j) \<noteq> Name element" using nm assms(2,4) by simp
  have "DependencyType (scanDevDependencies mid element ! i) = Some ''devDependency''"
    using scanDevDependencies_first_match [OF a b c] by simp
  moreover have "i < length (scanDevDependencies mid element)"
    using a by (simp add: length_scanDevDependencies)
  ultimately have
    "DependencyType (foldl scanDevDependencies (scanDevDependencies mid element) ys ! i)
       = Some ''devDependency''"
    by (rule foldl_scanDevDependencies_keeps_dev[rotated])
  then show ?thesis by (simp add: sp mid_def)
qed

lemma scanDependencies_false_is_dependency:
  "\<forall>p\<in>set flat. IsTransitive p = Some False \<longrightarrow> DependencyType p = Some ''dependency'' \<Longrightarrow>
   \<forall>p\<in>set (scanDependencies flat e).
      IsTransitive p = Some False \<longrightarrow> DependencyType p = Some ''dependency''"
  by (induction flat) auto

lemma foldl_scanDependencies_false_is_dependency:
  "\<forall>p\<in>set flat. IsTransitive p = Some False \<longrightarrow> DependencyType p = Some ''dependency'' \<Longrightarrow>
   \<forall>p\<in>set (foldl scanDependencies flat es).
      IsTransitive p = Some False \<longrightarrow> DependencyType p = Some ''dependency''"
proof (induction es arbitrary: flat)
  case Nil
  then show ?case by simp
next
  case (Cons e es)
  have "\<forall>p\<in>set (scanDependencies flat e).
      IsTransitive p = Some False \<longrightarrow> DependencyType p = Some ''dependency''"
    using Cons.prems by (rule scanDependencies_false_is_dependency)
  then show ?case using Cons.IH by simp
qed

lemma extractInfo_transitive: "\<forall>p\<in>set (extractInfo tree). IsTransitive p = Some True"
  by (auto simp: extractInfo_def)

lemma scanDevDependencies_other_name:
  "i < length flat \<Longrightarrow> Name (flat ! i) \<noteq> Name element \<Longrightarrow>
     DependencyType (scanDevDependencies flat element ! i) = DependencyType (flat ! i)
     \<and> (IsTransitive (flat ! i) = Some True \<longrightarrow>
          IsTransitive (scanDevDependencies flat element ! i) = Some True)"
proof (induction flat arbitrary: i)
  case Nil
  then show ?case by simp
next
  case (Cons e es)
  then show ?case by (cases i) auto
qed

lemma foldl_scanDevDependencies_other_names:
  "i < length flat \<Longrightarrow> \<forall>e\<in>set es. Name (flat ! i) \<noteq> Name e \<Longrightarrow>
     DependencyType (foldl scanDevDependencies flat es ! i) = DependencyType (flat ! i)
     \<and> (IsTransitive (flat ! i) = Some True \<longrightarrow>
          IsTransitive (foldl scanDevDependencies flat es ! i) = Some True)"
proof (induction es arbitrary: flat)
  case Nil
  then show ?case by simp
next
  case (Cons e es)
  let ?next = "scanDevDependencies flat e"
  have ne: "Name (flat ! i) \<noteq> Name e" using Cons.prems(2) by simp
  have step: "DependencyType (?next ! i) = DependencyType (flat ! i)
     \<and> (IsTransitive (flat ! i) = Some True \<longrightarrow> IsTransitive (?next ! i) = Some True)"
    using Cons.prems(1) ne by (rule scanDevDependencies_other_name)
  have len: "i < length ?next" using Cons.prems(1) by (simp add: length_scanDevDependencies)
  have "Name (?next ! i) = Name (flat ! i)"
    using map_Name_scanDevDependencies Cons.prems(1) by (rule nth_map_Name)
  then have "\<forall>e'\<in>set es. Name (?next ! i) \<noteq> Name e'" using Cons.prems(2) by simp
  with len have "DependencyType (foldl scanDevDependencies ?next es ! i) = DependencyType (?next ! i)
     \<and> (IsTransitive (?next ! i) = Some True \<longrightarrow>
          IsTransitive (foldl scanDevDependencies ?next es ! i) = Some True)"
    by (rule Cons.IH)
  then show ?case using step by simp
qed

lemma devPass_reverts:
  assumes e: "element \<in> set devs"
    and ik: "i < k" and k: "k < length mid"
    and km: "Name (mid ! k) = Name element" and kf: "\<forall>j<k. Name (mid ! j) \<noteq> Name element"
    and nd: "\<forall>e\<in>set devs. Name (mid ! i) \<noteq> Name e"
  shows "IsTransitive (foldl scanDevDependencies mid devs ! i) = Some True
         \<and> DependencyType (foldl scanDevDependencies mid devs ! i) = DependencyType (mid ! i)"
proof -
  have i: "i < length mid" using ik k by simp
  from e obtain xs ys where sp: "devs = xs @ element # ys"
    by (auto simp: in_set_conv_decomp)
  define m1 where "m1 = foldl scanDevDependencies mid xs"
  define m2 where "m2 = scanDevDependencies m1 element"
  have n1: "map Name m1 = map Name mid"
    by (simp add: m1_def map_Name_foldl_scanDevDependencies)
  have l1: "length m1 = length mid"
    by (simp add: m1_def length_foldl_scanDevDependencies)
  have nm1: "\<And>j. j < length mid \<Longrightarrow> Name (m1 ! j) = Name (mid ! j)"
    using n1 by (rule nth_map_Name)
  have "\<forall>j\<le>i. Name (m1 ! j) \<noteq> Name element"
    using nm1 kf ik k by simp
  moreover have i1: "i < length m1" using i l1 by simp
  ultimately have t2: "IsTransitive (m2 ! i) = Some True"
    unfolding m2_def by (intro scanDevDependencies_before_match)
  have l2: "i < length m2" using i1 by (simp add: m2_def length_scanDevDependencies)
  have n2: "Name (m2 ! i) = Name (mid ! i)"
    using nm1 i i1 map_Name_scanDevDependencies [of m1 element] nth_map_Name [of m2 m1 i]
    by (simp add: m2_def)
  have "\<forall>e\<in>set ys. Name (m2 ! i) \<noteq> Name e" using nd n2 sp by simp
  with l2 have "IsTransitive (m2 ! i) = Some True \<longrightarrow>
          IsTransitive (foldl scanDevDependencies m2 ys ! i) = Some True"
    using foldl_scanDevDependencies_other_names by blast
  then have tr: "IsTransitive (foldl scanDevDependencies mid devs ! i) = Some True"
    using t2 by (simp add: sp m1_def m2_def)
  have "DependencyType (foldl scanDevDependencies mid devs ! i) = DependencyType (mid ! i)"
    using foldl_scanDevDependencies_other_names [OF i nd] by simp
  then show ?thesis using tr by simp
qed

text \<open>
  Claim C4. In the pass over the development dependencies, the scan for one declared
  name leaves \<^verbatim>\<open>IsTransitive = true\<close> on every record that stands before the first
  record of that name. So a record that the pass over the dependencies has left with
  \<^verbatim>\<open>IsTransitive = false\<close> is returned with \<^verbatim>\<open>IsTransitive = true\<close>, and with the type
  \<^verbatim>\<open>dependency\<close> that the first pass gave it, whenever a name declared as a development
  dependency has its first record after it and its own name is not declared as one;
  that later record is returned with the type \<^verbatim>\<open>devDependency\<close>.
\<close>

theorem devDependencies_scan_reverts:
  assumes "shrinkwrap_dependencies npmShrinkwrapContents = Some tree"
    and "package_dependencies npmPackageContents = Some deps"
    and "package_devDependencies npmPackageContents = Some devDeps"
    and "flat = flattenDependencies (map asElement (extractInfo tree))"
    and "extractPackageJsonInfo (Some deps) = Inr dependenciesTopLevel"
    and "IsTransitive (foldl scanDependencies flat dependenciesTopLevel ! i) = Some False"
    and "i < k" and "k < length flat"
    and "Name (flat ! k) \<in> fst ` set devDeps"
    and "\<forall>j<k. Name (flat ! j) \<noteq> Name (flat ! k)"
    and "Name (flat ! i) \<notin> fst ` set devDeps"
  shows "(\<forall>n<length scanned. (\<forall>j\<le>n. Name (scanned ! j) \<noteq> Name element) \<longrightarrow>
            IsTransitive (scanDevDependencies scanned element ! n) = Some True)
         \<and> (\<exists>result. flattenAndUniqDependencies npmShrinkwrapContents npmPackageContents = Inr result
               \<and> IsTransitive (result ! i) = Some True
               \<and> DependencyType (result ! i) = Some ''dependency''
               \<and> DependencyType (result ! k) = Some ''devDependency'')"
proof
  show "\<forall>n<length scanned. (\<forall>j\<le>n. Name (scanned ! j) \<noteq> Name element) \<longrightarrow>
            IsTransitive (scanDevDependencies scanned element ! n) = Some True"
    using scanDevDependencies_before_match by blast
next
  obtain devs where devs: "extractPackageJsonInfo (Some devDeps) = Inr devs"
    and devs_eq: "devs = map (\<lambda>(k, v). \<lparr>Name = k, Version = index (str_split CHR '':'' v) 1,
                       Hash = '''', IsTransitive = Some False, DependencyType = None\<rparr>) devDeps"
    by (simp add: extractPackageJsonInfo_def)
  have dev_names: "Name ` set devs = fst ` set devDeps"
    unfolding devs_eq by force
  define mid where "mid = foldl scanDependencies flat dependenciesTopLevel"
  define result where "result = foldl scanDevDependencies mid devs"
  have names: "map Name mid = map Name flat"
    by (simp add: mid_def map_Name_foldl_scanDependencies)
  then have len: "length mid = length flat"
    by (metis length_map)
  have nm: "\<And>j. j < length flat \<Longrightarrow> Name (mid ! j) = Name (flat ! j)"
    using names by (rule nth_map_Name)
  have i: "i < length flat" using assms(7,8) by simp
  from assms(9) dev_names obtain element' where el: "element' \<in> set devs"
    "Name element' = Name (flat ! k)"
    by (metis imageE)
  have k: "k < length mid" using assms(8) len by simp
  have km: "Name (mid ! k) = Name element'" using nm assms(8) el by simp
  have kf: "\<forall>j<k. Name (mid ! j) \<noteq> Name element'" using nm assms(8,10) el by simp
  have nd: "\<forall>e\<in>set devs. Name (mid ! i) \<noteq> Name e"
    using nm i assms(11) dev_names by (metis imageI)
  have rev: "IsTransitive (result ! i) = Some True
         \<and> DependencyType (result ! i) = DependencyType (mid ! i)"
    unfolding result_def using el(1) assms(7) k km kf nd by (rule devPass_reverts)
  have "flat = extractInfo tree"
    using assms(4) by (simp add: flattenDependencies_packages)
  then have "\<forall>p\<in>set flat. IsTransitive p = Some False \<longrightarrow> DependencyType p = Some ''dependency''"
    using extractInfo_transitive by auto
  then have "\<forall>p\<in>set mid. IsTransitive p = Some False \<longrightarrow> DependencyType p = Some ''dependency''"
    unfolding mid_def by (rule foldl_scanDependencies_false_is_dependency)
  moreover have "mid ! i \<in> set mid" using i len by simp
  ultimately have di: "DependencyType (mid ! i) = Some ''dependency''"
    using assms(6) by (simp add: mid_def)
  have dk: "DependencyType (result ! k) = Some ''devDependency''"
    unfolding result_def using el(1) k km kf by (rule foldl_scanDevDependencies_declared)
  have "flattenAndUniqDependencies npmShrinkwrapContents npmPackageContents = Inr result"
    using assms(1,2,3,4,5) devs
    by (simp add: flattenAndUniqDependencies_def Let_def result_def mid_def)
  then show "\<exists>result. flattenAndUniqDependencies npmShrinkwrapContents npmPackageContents = Inr result
               \<and> IsTransitive (result ! i) = Some True
               \<and> DependencyType (result ! i) = Some ''dependency''
               \<and> DependencyType (result ! k) = Some ''devDependency''"
    using rev di dk by auto
qed

theorem devDependencies_scan_reverts_witness:
  "IsTransitive
     (foldl scanDependencies (flattenDependencies (map asElement (extractInfo markedTree)))
        [\<lparr>Name = ''b'', Version = None, Hash = '''', IsTransitive = Some False,
           DependencyType = None\<rparr>] ! 0) = Some False
   \<and> (\<exists>result. flattenAndUniqDependencies \<lparr>shrinkwrap_dependencies = Some markedTree\<rparr>
                  \<lparr>package_dependencies = Some [(''b'', ''^1.0.0'')],
                   package_devDependencies = Some [(''a'', ''^1.0.0'')]\<rparr> = Inr result
               \<and> IsTransitive (result ! 0) = Some True
               \<and> DependencyType (result ! 0) = Some ''dependency''
               \<and> DependencyType (result ! 1) = Some ''devDependency'')"
proof -
  let ?flat = "flattenDependencies (map asElement (extractInfo markedTree))"
  let ?tops = "[\<lparr>Name = ''b'', Version = None, Hash = '''', IsTransitive = Some False,
           DependencyType = None\<rparr>]"
  have flat: "?flat = [\<lparr>Name = ''b'', Version = Some ''1.0.0'', Hash = '''',
           IsTransitive = Some True, DependencyType = Some ''devDependency''\<rparr>,
         \<lparr>Name = ''a'', Version = Some ''1.0.0'', Hash = '''', IsTransitive = Some True,
           DependencyType = Some ''dependency''\<rparr>]"
    by code_simp
  have h5: "extractPackageJsonInfo (Some [(''b'', ''^1.0.0'')]) = Inr ?tops"
    by code_simp
  have h6: "IsTransitive (foldl scanDependencies ?flat ?tops ! 0) = Some False"
    unfolding flat by simp
  have h7: "(0::nat) < 1" by simp
  have h8: "1 < length ?flat" unfolding flat by simp
  have h9: "Name (?flat ! 1) \<in> fst ` set [(''a'', ''^1.0.0'')]" unfolding flat by simp
  have h10: "\<forall>j<1. Name (?flat ! j) \<noteq> Name (?flat ! 1)" unfolding flat by simp
  have h11: "Name (?flat ! 0) \<notin> fst ` set [(''a'', ''^1.0.0'')]" unfolding flat by simp
  have "\<exists>result. flattenAndUniqDependencies \<lparr>shrinkwrap_dependencies = Some markedTree\<rparr>
                  \<lparr>package_dependencies = Some [(''b'', ''^1.0.0'')],
                   package_devDependencies = Some [(''a'', ''^1.0.0'')]\<rparr> = Inr result
               \<and> IsTransitive (result ! 0) = Some True
               \<and> DependencyType (result ! 0) = Some ''dependency''
               \<and> DependencyType (result ! 1) = Some ''devDependency''"
    using devDependencies_scan_reverts [of "\<lparr>shrinkwrap_dependencies = Some markedTree\<rparr>" markedTree
              "\<lparr>package_dependencies = Some [(''b'', ''^1.0.0'')],
                package_devDependencies = Some [(''a'', ''^1.0.0'')]\<rparr>"
              "[(''b'', ''^1.0.0'')]" "[(''a'', ''^1.0.0'')]" ?flat ?tops 0 1,
           OF _ _ _ refl h5 h6 h7 h8 h9 h10 h11]
    by simp
  then show ?thesis using h6 by simp
qed

text \<open>
  Claim C5. The pass over the declared dependencies runs first, the pass over the
  declared development dependencies second. When the manifest declares a name in both
  maps and the flattened sequence has a record of that name, the call returns, and the
  first record of that name is returned with the type \<^verbatim>\<open>devDependency\<close>.
\<close>

theorem declared_in_both_is_devDependency:
  assumes "shrinkwrap_dependencies npmShrinkwrapContents = Some tree"
    and "package_dependencies npmPackageContents = Some deps"
    and "package_devDependencies npmPackageContents = Some devDeps"
    and "name \<in> fst ` set deps" and "name \<in> fst ` set devDeps"
    and "flat = flattenDependencies (map asElement (extractInfo tree))"
    and "i < length flat" and "Name (flat ! i) = name"
    and "\<forall>j<i. Name (flat ! j) \<noteq> name"
  shows "\<exists>result. flattenAndUniqDependencies npmShrinkwrapContents npmPackageContents = Inr result
           \<and> length result = length flat \<and> Name (result ! i) = name
           \<and> DependencyType (result ! i) = Some ''devDependency''"
proof -
  obtain tops where tops: "extractPackageJsonInfo (Some deps) = Inr tops"
    by (simp add: extractPackageJsonInfo_def)
  obtain devs where devs: "extractPackageJsonInfo (Some devDeps) = Inr devs"
    and devs_eq: "devs = map (\<lambda>(k, v). \<lparr>Name = k, Version = index (str_split CHR '':'' v) 1,
                       Hash = '''', IsTransitive = Some False, DependencyType = None\<rparr>) devDeps"
    by (simp add: extractPackageJsonInfo_def)
  from assms(5) obtain v where "(name, v) \<in> set devDeps" by auto
  then have "\<lparr>Name = name, Version = index (str_split CHR '':'' v) 1, Hash = '''',
                       IsTransitive = Some False, DependencyType = None\<rparr> \<in> set devs"
    unfolding devs_eq by force
  then obtain element where el: "element \<in> set devs" "Name element = name"
    by force
  define mid where "mid = foldl scanDependencies flat tops"
  define result where "result = foldl scanDevDependencies mid devs"
  have names: "map Name mid = map Name flat"
    by (simp add: mid_def map_Name_foldl_scanDependencies)
  then have len: "length mid = length flat"
    by (metis length_map)
  have nm: "\<And>j. j < length flat \<Longrightarrow> Name (mid ! j) = Name (flat ! j)"
    using names by (rule nth_map_Name)
  have a: "i < length mid" using assms(7) len by simp
  have b: "Name (mid ! i) = Name element" using nm assms(7,8) el by simp
  have c: "\<forall>j<i. Name (mid ! j) \<noteq> Name element" using nm assms(7,9) el by simp
  have ty: "DependencyType (result ! i) = Some ''devDependency''"
    unfolding result_def using el(1) a b c by (rule foldl_scanDevDependencies_declared)
  have rl: "length result = length flat"
    by (simp add: result_def length_foldl_scanDevDependencies len)
  have "map Name result = map Name flat"
    by (simp add: result_def map_Name_foldl_scanDevDependencies names)
  then have rn: "Name (result ! i) = name"
    using nth_map_Name assms(7,8) by blast
  have "flattenAndUniqDependencies npmShrinkwrapContents npmPackageContents = Inr result"
    using assms(1,2,3,6) tops devs
    by (simp add: flattenAndUniqDependencies_def Let_def result_def mid_def)
  then show ?thesis using ty rl rn by blast
qed

theorem declared_in_both_is_devDependency_witness:
  "\<exists>result. flattenAndUniqDependencies \<lparr>shrinkwrap_dependencies = Some unsortedTree\<rparr>
       \<lparr>package_dependencies = Some [(''a'', ''^1.0.0'')],
        package_devDependencies = Some [(''a'', ''^1.0.0'')]\<rparr> = Inr result
     \<and> length result = 2 \<and> Name (result ! 1) = ''a''
     \<and> DependencyType (result ! 1) = Some ''devDependency''"
proof -
  let ?flat = "flattenDependencies (map asElement (extractInfo unsortedTree))"
  have flat: "?flat = [\<lparr>Name = ''b'', Version = Some ''1.0.0'', Hash = '''',
           IsTransitive = Some True, DependencyType = Some ''dependency''\<rparr>,
         \<lparr>Name = ''a'', Version = Some ''1.0.0'', Hash = '''', IsTransitive = Some True,
           DependencyType = Some ''dependency''\<rparr>]"
    by code_simp
  have h7: "1 < length ?flat" and h8: "Name (?flat ! 1) = ''a''"
    and h9: "\<forall>j<1. Name (?flat ! j) \<noteq> ''a''"
    unfolding flat by simp_all
  have "\<exists>result. flattenAndUniqDependencies \<lparr>shrinkwrap_dependencies = Some unsortedTree\<rparr>
       \<lparr>package_dependencies = Some [(''a'', ''^1.0.0'')],
        package_devDependencies = Some [(''a'', ''^1.0.0'')]\<rparr> = Inr result
     \<and> length result = length ?flat \<and> Name (result ! 1) = ''a''
     \<and> DependencyType (result ! 1) = Some ''devDependency''"
    by (rule declared_in_both_is_devDependency
          [of "\<lparr>shrinkwrap_dependencies = Some unsortedTree\<rparr>" unsortedTree
              "\<lparr>package_dependencies = Some [(''a'', ''^1.0.0'')],
                package_devDependencies = Some [(''a'', ''^1.0.0'')]\<rparr>"
              "[(''a'', ''^1.0.0'')]" "[(''a'', ''^1.0.0'')]",
           OF _ _ _ _ _ refl h7 h8 h9]) simp_all
  then show ?thesis unfolding flat by (simp add: numeral_2_eq_2)
qed

section \<open>The entry point's refusals\<close>

text \<open>
  Claim C10, as stated, fails in its last part: the unknown format is not the only case
  in which the call produces nothing. With \<^verbatim>\<open>yarn.lock\<close>, a supported format, and a
  \<^verbatim>\<open>yarn list\<close> that prints nothing, the call is rejected.
\<close>

theorem supported_manifestType_rejected:
  "getDependencyArray silentWorld nameAtVersion YARN_LOCK = Inl ''Error running yarn list, err: ''"
  by code_simp

text \<open>
  Claim C10, amended. For every manifest type other than the three formats the call
  is rejected with the message that ends in the manifest type, and resolves to no
  array; a call with one of the three formats can be rejected as well.
\<close>

theorem unknown_manifestType_rejected:
  assumes "manifestType \<noteq> YARN_LOCK" and "manifestType \<noteq> NPM_SHRINKWRAP_JSON"
    and "manifestType \<noteq> PACKAGE_LOCK_JSON"
  shows "getDependencyArray w toPurl manifestType =
           Inl (''No valid command supplied, have you implemented it? Manifest type supplied: ''
                  @ manifestType)
         \<and> (\<exists>w'. getDependencyArray w' toPurl YARN_LOCK = Inl ''Error running yarn list, err: '')"
proof
  show "getDependencyArray w toPurl manifestType =
           Inl (''No valid command supplied, have you implemented it? Manifest type supplied: ''
                  @ manifestType)"
    using assms by (simp add: getDependencyArray_def)
next
  have "getDependencyArray silentWorld toPurl YARN_LOCK = Inl ''Error running yarn list, err: ''"
    by (simp add: getDependencyArray_def silentWorld_def YARN_LIST_COMMAND_def)
  then show "\<exists>w'. getDependencyArray w' toPurl YARN_LOCK = Inl ''Error running yarn list, err: ''"
    by blast
qed

theorem unknown_manifestType_rejected_witness:
  "''pom.xml'' \<noteq> YARN_LOCK \<and> ''pom.xml'' \<noteq> NPM_SHRINKWRAP_JSON \<and> ''pom.xml'' \<noteq> PACKAGE_LOCK_JSON \<and>
   getDependencyArray silentWorld nameAtVersion ''pom.xml'' =
     Inl ''No valid command supplied, have you implemented it? Manifest type supplied: pom.xml''"
proof -
  have a: "''pom.xml'' \<noteq> YARN_LOCK" by (simp add: YARN_LOCK_def)
  have b: "''pom.xml'' \<noteq> NPM_SHRINKWRAP_JSON" by (simp add: NPM_SHRINKWRAP_JSON_def)
  have c: "''pom.xml'' \<noteq> PACKAGE_LOCK_JSON" by (simp add: PACKAGE_LOCK_JSON_def)
  show ?thesis
    using a b c unknown_manifestType_rejected [OF a b c, of silentWorld nameAtVersion] by simp
qed

end
